theory Spec2Isabelle
  imports Main "HOL-Library.Word"
begin

unbundle bit_operations_syntax

section \<open>Data model\<close>

text \<open>
  The archive writer of \<open>src/main.js\<close>: \<open>createZipBuffer\<close>, \<open>crc32\<close> and
  \<open>getCrc32Table\<close> (lines 1771 to 1888; the file holds the same text a second time,
  from line 4208 on).

  A Node \<open>Buffer\<close> is a sequence of bytes.  The table of \<open>getCrc32Table\<close> is a
  \<open>Uint32Array\<close>, and every bitwise operator of JavaScript works on 32 bits, so the
  accumulator of \<open>crc32\<close> is a 32-bit word: \<open>>>>\<close> is \<open>drop_bit\<close>, \<open>^\<close> is
  \<open>XOR\<close>, \<open>&\<close> is \<open>AND\<close>.
\<close>

type_synonym byte = "8 word"
type_synonym Buffer = "byte list"
type_synonym uint32 = "32 word"

section \<open>CRC-32 (\<open>getCrc32Table\<close>, \<open>crc32\<close>)\<close>

text \<open>
  The inner loop \<open>for (let j = 0; j < 8; j++)\<close> of \<open>getCrc32Table\<close>; its body does
  not read \<open>j\<close>, so the argument counts the iterations that remain.
\<close>

fun tableInner :: "nat \<Rightarrow> uint32 \<Rightarrow> uint32" where
  "tableInner 0 c = c"
| "tableInner (Suc j) c =
     tableInner j (if c AND 1 \<noteq> 0 then 0xEDB88320 XOR drop_bit 1 c else drop_bit 1 c)"

text \<open>
  The outer loop \<open>for (let i = 0; i < 256; i++)\<close>, storing \<open>crc32Table[i] = c\<close> into
  the array allocated by \<open>new Uint32Array(256)\<close>.
\<close>

function tableOuter :: "nat \<Rightarrow> uint32 list \<Rightarrow> uint32 list" where
  "tableOuter i tbl =
     (if i < 256 then tableOuter (i + 1) (tbl[i := tableInner 8 (of_nat i)]) else tbl)"
  by pat_completeness auto
termination
  by (relation "measure (\<lambda>(i, tbl). 256 - i)") auto

declare tableOuter.simps [simp del]

definition buildCrc32Table :: "uint32 list" where
  "buildCrc32Table = tableOuter 0 (replicate 256 0)"

text \<open>
  \<open>getCrc32Table\<close> with the module variable \<open>crc32Table\<close> as explicit state:
  \<open>None\<close> is \<open>null\<close>.  It returns the table and the new value of the variable.
\<close>

definition getCrc32Table_cached :: "uint32 list option \<Rightarrow> uint32 list \<times> uint32 list option" where
  "getCrc32Table_cached crc32Table =
     (case crc32Table of
        Some t \<Rightarrow> (t, crc32Table)
      | None \<Rightarrow> (buildCrc32Table, Some buildCrc32Table))"

text \<open>
  The variable is only ever \<open>null\<close> or the table built by the loops (lemma
  \<open>getCrc32Table_cached_ok\<close> below), so every call returns that table;
  \<open>getCrc32Table\<close> is the value every call returns.
\<close>

definition cache_ok :: "uint32 list option \<Rightarrow> bool" where
  "cache_ok crc32Table = (crc32Table = None \<or> crc32Table = Some buildCrc32Table)"

definition getCrc32Table :: "uint32 list" where
  "getCrc32Table = fst (getCrc32Table_cached None)"

text \<open>
  Reading a typed array: an index outside the array gives \<open>undefined\<close>, which \<open>^\<close>
  converts to 0.
\<close>

definition tableAt :: "uint32 list \<Rightarrow> nat \<Rightarrow> uint32" where
  "tableAt table idx = (if idx < length table then table ! idx else 0)"

text \<open>The loop of \<open>crc32\<close> over the bytes of the buffer, in index order.\<close>

fun crc32_loop :: "uint32 list \<Rightarrow> uint32 \<Rightarrow> Buffer \<Rightarrow> uint32" where
  "crc32_loop table crc [] = crc"
| "crc32_loop table crc (b # bs) =
     crc32_loop table (drop_bit 8 crc XOR tableAt table (unat ((crc XOR ucast b) AND 0xFF))) bs"

definition crc32 :: "Buffer \<Rightarrow> uint32" where
  "crc32 buffer = crc32_loop getCrc32Table 0xFFFFFFFF buffer XOR 0xFFFFFFFF"

subsection \<open>The reference definition of the specification\<close>

text \<open>
  The specification's words: entry \<open>i\<close> of the table starts from \<open>i\<close> and, 8 times,
  shifts right by one, XORing with \<open>0xEDB88320\<close> when the low bit was set; the
  accumulator starts at \<open>0xFFFFFFFF\<close>, each byte updates it to
  \<open>(accumulator >> 8) XOR table[(accumulator XOR byte) & 0xFF]\<close>, and the result is the
  accumulator XOR \<open>0xFFFFFFFF\<close>.
\<close>

definition spec_shift :: "uint32 \<Rightarrow> uint32" where
  "spec_shift v = (if bit v 0 then drop_bit 1 v XOR 0xEDB88320 else drop_bit 1 v)"

definition spec_table :: "nat \<Rightarrow> uint32" where
  "spec_table i = (spec_shift ^^ 8) (of_nat i)"

definition spec_update :: "uint32 \<Rightarrow> byte \<Rightarrow> uint32" where
  "spec_update acc b = drop_bit 8 acc XOR spec_table (unat ((acc XOR ucast b) AND 0xFF))"

definition spec_crc32 :: "Buffer \<Rightarrow> uint32" where
  "spec_crc32 bytes = foldl spec_update 0xFFFFFFFF bytes XOR 0xFFFFFFFF"

section \<open>Node's \<open>Buffer\<close> and \<open>zlib\<close> as \<open>createZipBuffer\<close> uses them\<close>

text \<open>
  What a call of \<open>createZipBuffer\<close> can throw: the range checks of
  \<open>writeUInt16LE\<close> and \<open>writeUInt32LE\<close>, and whatever \<open>zlib.deflateRawSync\<close>
  throws.
\<close>

datatype js_error = ERR_OUT_OF_RANGE | ERR_BUFFER_OUT_OF_BOUNDS | Zlib_error

text \<open>
  \<open>zlib.deflateRawSync\<close> is not code of the repository: it is a parameter of the
  model, a function from the payload to the compressed bytes or to the error it throws.
\<close>

type_synonym deflate = "Buffer \<Rightarrow> js_error + Buffer"

text \<open>A JavaScript string is a sequence of UTF-16 code units.\<close>

type_synonym js_string = "16 word list"

definition from_ascii :: "string \<Rightarrow> js_string" where
  "from_ascii s = map (\<lambda>c. of_nat (of_char c)) s"

definition ascii_bytes :: "string \<Rightarrow> Buffer" where
  "ascii_bytes s = map (\<lambda>c. of_nat (of_char c)) s"

text \<open>
  \<open>Buffer.from(string, 'utf8')\<close>: one code unit below \<open>0x80\<close> is one byte, below
  \<open>0x800\<close> two bytes, a high surrogate followed by a low surrogate is the four bytes
  of their code point, a surrogate on its own is replaced by U+FFFD, and any other
  code unit is three bytes.
\<close>

definition isHighSurrogate :: "16 word \<Rightarrow> bool" where
  "isHighSurrogate c = (0xD800 \<le> c \<and> c \<le> 0xDBFF)"

definition isLowSurrogate :: "16 word \<Rightarrow> bool" where
  "isLowSurrogate c = (0xDC00 \<le> c \<and> c \<le> 0xDFFF)"

definition utf8Unit :: "16 word \<Rightarrow> Buffer" where
  "utf8Unit c =
     (if c < 0x80 then [ucast c]
      else if c < 0x800 then [0xC0 OR ucast (drop_bit 6 c), 0x80 OR ucast (c AND 0x3F)]
      else if isHighSurrogate c \<or> isLowSurrogate c then [0xEF, 0xBF, 0xBD]
      else [0xE0 OR ucast (drop_bit 12 c), 0x80 OR ucast (drop_bit 6 c AND 0x3F),
            0x80 OR ucast (c AND 0x3F)])"

definition utf8Pair :: "16 word \<Rightarrow> 16 word \<Rightarrow> Buffer" where
  "utf8Pair hi lo =
     (let cp = (0x10000 :: uint32) + push_bit 10 (ucast (hi AND 0x3FF)) + ucast (lo AND 0x3FF)
      in [0xF0 OR ucast (drop_bit 18 cp), 0x80 OR ucast (drop_bit 12 cp AND 0x3F),
          0x80 OR ucast (drop_bit 6 cp AND 0x3F), 0x80 OR ucast (cp AND 0x3F)])"

fun Buffer_from_utf8 :: "js_string \<Rightarrow> Buffer" where
  "Buffer_from_utf8 [] = []"
| "Buffer_from_utf8 [c] = utf8Unit c"
| "Buffer_from_utf8 (c # d # cs) =
     (if isHighSurrogate c \<and> isLowSurrogate d then utf8Pair c d @ Buffer_from_utf8 cs
      else utf8Unit c @ Buffer_from_utf8 (d # cs))"

text \<open>\<open>Buffer.alloc(n)\<close>: \<open>n\<close> zero bytes.\<close>

definition Buffer_alloc :: "nat \<Rightarrow> Buffer" where
  "Buffer_alloc n = replicate n 0"

text \<open>
  \<open>buf.writeUInt16LE(value, offset)\<close> and \<open>buf.writeUInt32LE(value, offset)\<close>: Node
  first checks the value against the range of the field, then the offset against the
  buffer, and only then stores the bytes, least significant first.  Every value that
  \<open>createZipBuffer\<close> writes is a length, an offset or a CRC: a natural number.
\<close>

definition boundsError :: "nat \<Rightarrow> nat \<Rightarrow> js_error" where
  "boundsError len byteLength =
     (if len < byteLength then ERR_BUFFER_OUT_OF_BOUNDS else ERR_OUT_OF_RANGE)"

definition writeUInt16LE :: "nat \<Rightarrow> nat \<Rightarrow> Buffer \<Rightarrow> js_error + Buffer" where
  "writeUInt16LE val offset buf =
     (if 0xFFFF < val then Inl ERR_OUT_OF_RANGE
      else if length buf < offset + 2 then Inl (boundsError (length buf) 2)
      else Inr (buf[offset := of_nat val, offset + 1 := of_nat (val div 2 ^ 8)]))"

definition writeUInt32LE :: "nat \<Rightarrow> nat \<Rightarrow> Buffer \<Rightarrow> js_error + Buffer" where
  "writeUInt32LE val offset buf =
     (if 0xFFFFFFFF < val then Inl ERR_OUT_OF_RANGE
      else if length buf < offset + 4 then Inl (boundsError (length buf) 4)
      else Inr (buf[offset := of_nat val, offset + 1 := of_nat (val div 2 ^ 8),
                    offset + 2 := of_nat (val div 2 ^ 16), offset + 3 := of_nat (val div 2 ^ 24)]))"

text \<open>
  \<open>source.copy(target, targetStart)\<close>: the bytes of \<open>source\<close> overwrite \<open>target\<close>
  from \<open>targetStart\<close> on, as many as fit.
\<close>

definition Buffer_copy :: "Buffer \<Rightarrow> Buffer \<Rightarrow> nat \<Rightarrow> Buffer" where
  "Buffer_copy source target targetStart =
     take targetStart target @ take (length target - targetStart) source
       @ drop (targetStart + length source) target"

text \<open>\<open>Buffer.concat(parts)\<close>.\<close>

definition Buffer_concat :: "Buffer list \<Rightarrow> Buffer" where
  "Buffer_concat parts = concat parts"

text \<open>
  \<open>buf.readUInt16LE(offset)\<close>, \<open>buf.readUInt32LE(offset)\<close> and
  \<open>buf.subarray(start, start + len)\<close>, with which the theorems below look into the
  archive; \<open>None\<close> where Node throws for an offset outside the buffer.
\<close>

definition readUInt16LE :: "Buffer \<Rightarrow> nat \<Rightarrow> nat option" where
  "readUInt16LE buf offset =
     (if length buf < offset + 2 then None
      else Some (unat (buf ! offset) + unat (buf ! (offset + 1)) * 2 ^ 8))"

definition readUInt32LE :: "Buffer \<Rightarrow> nat \<Rightarrow> nat option" where
  "readUInt32LE buf offset =
     (if length buf < offset + 4 then None
      else Some (unat (buf ! offset) + unat (buf ! (offset + 1)) * 2 ^ 8
                 + unat (buf ! (offset + 2)) * 2 ^ 16 + unat (buf ! (offset + 3)) * 2 ^ 24))"

definition subarray :: "Buffer \<Rightarrow> nat \<Rightarrow> nat \<Rightarrow> Buffer" where
  "subarray buf start len = take len (drop start buf)"

section \<open>The archive writer (\<open>createZipBuffer\<close>)\<close>

text \<open>An element of \<open>files\<close>, as \<open>addFile\<close> pushes it.\<close>

record zip_file =
  name :: js_string
  data :: Buffer
  compress :: bool

text \<open>
  A sequence of statements, each of which may throw: the first error ends the sequence.
\<close>

fun statements :: "('a \<Rightarrow> js_error + 'a) list \<Rightarrow> 'a \<Rightarrow> js_error + 'a" where
  "statements [] b = Inr b"
| "statements (w # ws) b = (case w b of Inl e \<Rightarrow> Inl e | Inr b' \<Rightarrow> statements ws b')"

text \<open>The local file header of one entry: the writes of the loop body, in their order.\<close>

definition localHeader :: "Buffer \<Rightarrow> bool \<Rightarrow> nat \<Rightarrow> nat \<Rightarrow> nat \<Rightarrow> js_error + Buffer" where
  "localHeader nameBuffer useCompression crc finalLength dataLength =
     (case statements
        [writeUInt32LE 0x04034b50 0,
         writeUInt16LE 20 4,
         writeUInt16LE 0 6,
         writeUInt16LE (if useCompression then 8 else 0) 8,
         writeUInt16LE 0 10,
         writeUInt16LE 0 12,
         writeUInt32LE crc 14,
         writeUInt32LE finalLength 18,
         writeUInt32LE dataLength 22,
         writeUInt16LE (length nameBuffer) 26,
         writeUInt16LE 0 28]
        (Buffer_alloc (30 + length nameBuffer))
      of Inl e \<Rightarrow> Inl e
       | Inr b \<Rightarrow> Inr (Buffer_copy nameBuffer b 30))"

text \<open>The central directory header of one entry.\<close>

definition centralHeader ::
  "Buffer \<Rightarrow> bool \<Rightarrow> nat \<Rightarrow> nat \<Rightarrow> nat \<Rightarrow> nat \<Rightarrow> js_error + Buffer" where
  "centralHeader nameBuffer useCompression crc finalLength dataLength offset =
     (case statements
        [writeUInt32LE 0x02014b50 0,
         writeUInt16LE 20 4,
         writeUInt16LE 20 6,
         writeUInt16LE 0 8,
         writeUInt16LE (if useCompression then 8 else 0) 10,
         writeUInt16LE 0 12,
         writeUInt16LE 0 14,
         writeUInt32LE crc 16,
         writeUInt32LE finalLength 20,
         writeUInt32LE dataLength 24,
         writeUInt16LE (length nameBuffer) 28,
         writeUInt16LE 0 30,
         writeUInt16LE 0 32,
         writeUInt16LE 0 34,
         writeUInt16LE 0 36,
         writeUInt32LE 0 38,
         writeUInt32LE offset 42]
        (Buffer_alloc (46 + length nameBuffer))
      of Inl e \<Rightarrow> Inl e
       | Inr b \<Rightarrow> Inr (Buffer_copy nameBuffer b 46))"

text \<open>
  The body of \<open>for (const file of files)\<close> at the running \<open>offset\<close>: the element
  pushed on \<open>localHeaders\<close> (header, data, offset) and the one pushed on
  \<open>centralHeaders\<close>.
\<close>

definition zipEntry ::
  "deflate \<Rightarrow> nat \<Rightarrow> zip_file \<Rightarrow> js_error + ((Buffer \<times> Buffer \<times> nat) \<times> Buffer)" where
  "zipEntry deflateRawSync offset f =
     (let nameBuffer = Buffer_from_utf8 (name f) in
      case (if compress f then deflateRawSync (data f) else Inr (data f)) of
        Inl e \<Rightarrow> Inl e
      | Inr compressed \<Rightarrow>
          let useCompression = (compress f \<and> length compressed < length (data f));
              finalData = (if useCompression then compressed else data f);
              crc = unat (crc32 (data f))
          in case localHeader nameBuffer useCompression crc (length finalData) (length (data f)) of
               Inl e \<Rightarrow> Inl e
             | Inr lh \<Rightarrow>
                 (case centralHeader nameBuffer useCompression crc (length finalData)
                         (length (data f)) offset of
                    Inl e \<Rightarrow> Inl e
                  | Inr ch \<Rightarrow> Inr ((lh, finalData, offset), ch)))"

text \<open>
  The loop over \<open>files\<close>, with the arrays \<open>localHeaders\<close> and \<open>centralHeaders\<close>
  and the variable \<open>offset\<close> as its state.
\<close>

fun zipLoop ::
  "deflate \<Rightarrow> zip_file list \<Rightarrow> (Buffer \<times> Buffer \<times> nat) list \<Rightarrow> Buffer list \<Rightarrow> nat
   \<Rightarrow> js_error + ((Buffer \<times> Buffer \<times> nat) list \<times> Buffer list \<times> nat)" where
  "zipLoop deflateRawSync [] localHeaders centralHeaders offset =
     Inr (localHeaders, centralHeaders, offset)"
| "zipLoop deflateRawSync (f # fs) localHeaders centralHeaders offset =
     (case zipEntry deflateRawSync offset f of
        Inl e \<Rightarrow> Inl e
      | Inr ((lh, finalData, off), ch) \<Rightarrow>
          zipLoop deflateRawSync fs (localHeaders @ [(lh, finalData, off)])
            (centralHeaders @ [ch]) (offset + (length lh + length finalData)))"

text \<open>The end-of-central-directory record.\<close>

definition endOfCentralDirectory :: "nat \<Rightarrow> nat \<Rightarrow> nat \<Rightarrow> js_error + Buffer" where
  "endOfCentralDirectory filesLength centralSize centralOffset =
     statements
       [writeUInt32LE 0x06054b50 0,
        writeUInt16LE 0 4,
        writeUInt16LE 0 6,
        writeUInt16LE filesLength 8,
        writeUInt16LE filesLength 10,
        writeUInt32LE centralSize 12,
        writeUInt32LE centralOffset 16,
        writeUInt16LE 0 20]
       (Buffer_alloc 22)"

definition createZipBuffer :: "deflate \<Rightarrow> zip_file list \<Rightarrow> js_error + Buffer" where
  "createZipBuffer deflateRawSync files =
     (case zipLoop deflateRawSync files [] [] 0 of
        Inl e \<Rightarrow> Inl e
      | Inr (localHeaders, centralHeaders, offset) \<Rightarrow>
          let centralOffset = offset;
              centralSize = foldl (\<lambda>centralSize ch. centralSize + length ch) 0 centralHeaders
          in case endOfCentralDirectory (length files) centralSize centralOffset of
               Inl e \<Rightarrow> Inl e
             | Inr eocd \<Rightarrow>
                 Inr (Buffer_concat
                       (concat (map (\<lambda>(header, finalData, off). [header, finalData]) localHeaders)
                        @ centralHeaders @ [eocd])))"

section \<open>The byte layout of the specification\<close>

text \<open>
  The tables of the specification (section 4.2), written as byte sequences: a field of
  2 or 4 bytes holds its value least significant byte first.  The lemmas
  \<open>localHeader_closed\<close>, \<open>centralHeader_closed\<close> and
  \<open>endOfCentralDirectory_closed\<close> compare them with what the writes of the code
  leave in the buffer.
\<close>

definition uint16LE :: "nat \<Rightarrow> Buffer" where
  "uint16LE v = [of_nat v, of_nat (v div 2 ^ 8)]"

definition uint32LE :: "nat \<Rightarrow> Buffer" where
  "uint32LE v = [of_nat v, of_nat (v div 2 ^ 8), of_nat (v div 2 ^ 16), of_nat (v div 2 ^ 24)]"

definition layout_localHeader :: "nat \<Rightarrow> nat \<Rightarrow> nat \<Rightarrow> nat \<Rightarrow> Buffer \<Rightarrow> Buffer" where
  "layout_localHeader method crc compressedSize uncompressedSize nameBuffer =
     uint32LE 0x04034b50 @ uint16LE 20 @ uint16LE 0 @ uint16LE method @ uint16LE 0 @ uint16LE 0
     @ uint32LE crc @ uint32LE compressedSize @ uint32LE uncompressedSize
     @ uint16LE (length nameBuffer) @ uint16LE 0 @ nameBuffer"

definition layout_centralHeader :: "nat \<Rightarrow> nat \<Rightarrow> nat \<Rightarrow> nat \<Rightarrow> Buffer \<Rightarrow> nat \<Rightarrow> Buffer" where
  "layout_centralHeader method crc compressedSize uncompressedSize nameBuffer headerOffset =
     uint32LE 0x02014b50 @ uint16LE 20 @ uint16LE 20 @ uint16LE 0 @ uint16LE method
     @ uint16LE 0 @ uint16LE 0
     @ uint32LE crc @ uint32LE compressedSize @ uint32LE uncompressedSize
     @ uint16LE (length nameBuffer) @ uint16LE 0 @ uint16LE 0 @ uint16LE 0 @ uint16LE 0
     @ uint32LE 0 @ uint32LE headerOffset @ nameBuffer"

definition layout_eocd :: "nat \<Rightarrow> nat \<Rightarrow> nat \<Rightarrow> Buffer" where
  "layout_eocd entries directorySize directoryOffset =
     uint32LE 0x06054b50 @ uint16LE 0 @ uint16LE 0 @ uint16LE entries @ uint16LE entries
     @ uint32LE directorySize @ uint32LE directoryOffset @ uint16LE 0"

section \<open>Vocabulary of the theorems\<close>

text \<open>
  What the loop body decides for one entry, as functions of the entry: whether the
  output of \<open>deflateRawSync\<close> is kept, the bytes that are stored, and the sizes of
  the two headers.  (Where \<open>deflateRawSync\<close> throws there is no archive at all, see
  \<open>zipEntry\<close>; \<open>usesDeflate\<close> is false there.)
\<close>

definition nameBytes :: "zip_file \<Rightarrow> Buffer" where
  "nameBytes f = Buffer_from_utf8 (name f)"

definition usesDeflate :: "deflate \<Rightarrow> zip_file \<Rightarrow> bool" where
  "usesDeflate d f =
     (compress f \<and> \<not> isl (d (data f)) \<and> length (projr (d (data f))) < length (data f))"

definition storedData :: "deflate \<Rightarrow> zip_file \<Rightarrow> Buffer" where
  "storedData d f = (if usesDeflate d f then projr (d (data f)) else data f)"

definition methodOf :: "deflate \<Rightarrow> zip_file \<Rightarrow> nat" where
  "methodOf d f = (if usesDeflate d f then 8 else 0)"

definition localSize :: "deflate \<Rightarrow> zip_file \<Rightarrow> nat" where
  "localSize d f = 30 + length (nameBytes f) + length (storedData d f)"

definition centralSize :: "zip_file \<Rightarrow> nat" where
  "centralSize f = 46 + length (nameBytes f)"

text \<open>
  Where the local header of entry \<open>i\<close> begins: the sizes of the entries before it.
  The central directory begins after all of them, and the central header of entry
  \<open>i\<close> after the central headers before it.
\<close>

definition localOffset :: "deflate \<Rightarrow> zip_file list \<Rightarrow> nat \<Rightarrow> nat" where
  "localOffset d files i = sum_list (map (localSize d) (take i files))"

definition centralOffset :: "deflate \<Rightarrow> zip_file list \<Rightarrow> nat" where
  "centralOffset d files = sum_list (map (localSize d) files)"

definition centralPos :: "deflate \<Rightarrow> zip_file list \<Rightarrow> nat \<Rightarrow> nat" where
  "centralPos d files i = centralOffset d files + sum_list (map centralSize (take i files))"

text \<open>The layout of the specification for one entry at a given offset.\<close>

definition layout_local :: "deflate \<Rightarrow> zip_file \<Rightarrow> Buffer" where
  "layout_local d f =
     layout_localHeader (methodOf d f) (unat (crc32 (data f))) (length (storedData d f))
       (length (data f)) (nameBytes f)"

definition layout_central :: "deflate \<Rightarrow> zip_file \<Rightarrow> nat \<Rightarrow> Buffer" where
  "layout_central d f off =
     layout_centralHeader (methodOf d f) (unat (crc32 (data f))) (length (storedData d f))
       (length (data f)) (nameBytes f) off"

fun layout_centrals :: "deflate \<Rightarrow> nat \<Rightarrow> zip_file list \<Rightarrow> Buffer list" where
  "layout_centrals d off [] = []"
| "layout_centrals d off (f # fs) =
     layout_central d f off # layout_centrals d (off + localSize d f) fs"

fun layout_locals :: "deflate \<Rightarrow> nat \<Rightarrow> zip_file list \<Rightarrow> (Buffer \<times> Buffer \<times> nat) list" where
  "layout_locals d off [] = []"
| "layout_locals d off (f # fs) =
     (layout_local d f, storedData d f, off) # layout_locals d (off + localSize d f) fs"

text \<open>
  The conditions under which no write of the loop body throws for an entry at a given
  offset, and for all entries from a given offset on.
\<close>

definition entry_ok :: "deflate \<Rightarrow> nat \<Rightarrow> zip_file \<Rightarrow> bool" where
  "entry_ok d off f =
     ((compress f \<longrightarrow> \<not> isl (d (data f))) \<and> length (storedData d f) \<le> 0xFFFFFFFF
      \<and> length (data f) \<le> 0xFFFFFFFF \<and> length (nameBytes f) \<le> 0xFFFF \<and> off \<le> 0xFFFFFFFF)"

fun entries_ok :: "deflate \<Rightarrow> nat \<Rightarrow> zip_file list \<Rightarrow> bool" where
  "entries_ok d off [] = True"
| "entries_ok d off (f # fs) = (entry_ok d off f \<and> entries_ok d (off + localSize d f) fs)"

text \<open>
  The whole archive in the layout of the specification, and the conditions under which
  no write of \<open>createZipBuffer\<close> throws.
\<close>

definition layout_archive :: "deflate \<Rightarrow> zip_file list \<Rightarrow> Buffer" where
  "layout_archive d files =
     concat (map (\<lambda>f. layout_local d f @ storedData d f) files)
     @ concat (layout_centrals d 0 files)
     @ layout_eocd (length files) (sum_list (map centralSize files)) (centralOffset d files)"

definition archive_ok :: "deflate \<Rightarrow> zip_file list \<Rightarrow> bool" where
  "archive_ok d files =
     (entries_ok d 0 files \<and> length files \<le> 0xFFFF
      \<and> sum_list (map centralSize files) \<le> 0xFFFFFFFF \<and> centralOffset d files \<le> 0xFFFFFFFF)"

section \<open>Sample inputs\<close>

text \<open>
  Concrete inputs at which the theorems below are instantiated.  \<open>sample_deflate\<close>
  stands for a \<open>deflateRawSync\<close> that shrinks some payloads and grows others,
  \<open>failing_deflate\<close> for one that throws.
\<close>

definition sample_deflate :: deflate where
  "sample_deflate b = Inr (3 # remdups_adj b)"

definition failing_deflate :: deflate where
  "failing_deflate b = Inl Zlib_error"

definition entry_mimetype :: zip_file where
  "entry_mimetype =
     \<lparr>name = from_ascii ''mimetype'', data = ascii_bytes ''application/epub+zip'', compress = False\<rparr>"

definition entry_a :: zip_file where
  "entry_a = \<lparr>name = from_ascii ''a'', data = ascii_bytes ''aaaaaaaa'', compress = True\<rparr>"

definition entry_b :: zip_file where
  "entry_b = \<lparr>name = from_ascii ''b'', data = ascii_bytes ''ab'', compress = True\<rparr>"

definition sample_files :: "zip_file list" where
  "sample_files = [entry_mimetype, entry_a, entry_b]"

section \<open>CRC-32: the code computes the reference definition\<close>

lemma low_bit_test: "(c AND 1 \<noteq> 0) = bit c 0" for c :: uint32
  by (simp add: and_one_eq bit_0 mod_2_eq_odd)

lemma tableInner_funpow: "tableInner n c = (spec_shift ^^ n) c"
proof (induction n arbitrary: c)
  case 0
  show ?case by simp
next
  case (Suc n)
  have "(if c AND 1 \<noteq> 0 then 0xEDB88320 XOR drop_bit 1 c else drop_bit 1 c) = spec_shift c"
    by (simp add: spec_shift_def low_bit_test xor.commute)
  then have "tableInner (Suc n) c = (spec_shift ^^ n) (spec_shift c)"
    by (simp add: Suc.IH)
  then show ?case by (simp add: funpow_swap1)
qed

lemma tableOuter_closed:
  "i \<le> 256 \<Longrightarrow> length tbl = 256 \<Longrightarrow>
   tableOuter i tbl = take i tbl @ map (\<lambda>k. tableInner 8 (of_nat k)) [i..<256]"
proof (induction i tbl rule: tableOuter.induct)
  case (1 i tbl)
  show ?case
  proof (cases "i < 256")
    case True
    have "tableOuter i tbl = tableOuter (i + 1) (tbl[i := tableInner 8 (of_nat i)])"
      using True by (subst tableOuter.simps) simp
    also have "\<dots> = take (i + 1) (tbl[i := tableInner 8 (of_nat i)])
                 @ map (\<lambda>k. tableInner 8 (of_nat k)) [i + 1..<256]"
      using True "1.prems" by (intro "1.IH") simp_all
    also have "take (i + 1) (tbl[i := tableInner 8 (of_nat i)]) = take i tbl @ [tableInner 8 (of_nat i)]"
      using True "1.prems" by (simp add: take_Suc_conv_app_nth)
    finally show ?thesis
      using True by (simp add: upt_conv_Cons)
  next
    case False
    with "1.prems" have "i = 256" by simp
    then show ?thesis using "1.prems" by (subst tableOuter.simps) simp
  qed
qed

lemma getCrc32Table_spec: "getCrc32Table = map spec_table [0..<256]"
proof -
  have "tableOuter 0 (replicate 256 0) = take 0 (replicate 256 0) @ map (\<lambda>k. tableInner 8 (of_nat k)) [0..<256]"
    by (rule tableOuter_closed) simp_all
  also have "\<dots> = map spec_table [0..<256]"
    unfolding spec_table_def tableInner_funpow by (simp only: take_0 append_Nil)
  finally show ?thesis
    by (simp add: getCrc32Table_def getCrc32Table_cached_def buildCrc32Table_def)
qed

lemma low_byte_index: "unat (x AND 0xFF) < 256" for x :: uint32
proof -
  have "x AND 0xFF \<le> 0xFF" by (rule word_and_le1)
  then have "unat (x AND 0xFF) \<le> unat (0xFF :: uint32)" by (simp add: word_le_nat_alt)
  then show ?thesis by simp
qed

lemma tableAt_getCrc32Table:
  "tableAt getCrc32Table (unat (x AND 0xFF)) = spec_table (unat (x AND 0xFF))" for x :: uint32
  using low_byte_index [of x]
  by (simp only: tableAt_def getCrc32Table_spec length_map length_upt nth_map nth_upt
      diff_zero add_0 if_True)

lemma crc32_loop_foldl: "crc32_loop getCrc32Table crc bs = foldl spec_update crc bs"
  by (induction bs arbitrary: crc) (simp_all add: tableAt_getCrc32Table spec_update_def)

lemma getCrc32Table_cached_ok:
  "cache_ok c \<Longrightarrow> fst (getCrc32Table_cached c) = getCrc32Table \<and> cache_ok (snd (getCrc32Table_cached c))"
  by (auto simp: cache_ok_def getCrc32Table_cached_def getCrc32Table_def)


text \<open>Two known values: the check value of CRC-32 and the CRC of the EPUB media type.\<close>

lemma crc32_check_value: "crc32 (ascii_bytes ''123456789'') = 0xCBF43926"
proof -
  have "spec_crc32 (ascii_bytes ''123456789'') = 0xCBF43926" by code_simp
  then show ?thesis by (simp add: crc32_def spec_crc32_def crc32_loop_foldl)
qed

lemma crc32_mimetype: "crc32 (ascii_bytes ''application/epub+zip'') = 0x2CAB616F"
proof -
  have "spec_crc32 (ascii_bytes ''application/epub+zip'') = 0x2CAB616F" by code_simp
  then show ?thesis by (simp add: crc32_def spec_crc32_def crc32_loop_foldl)
qed

section \<open>The writes of the code produce the layout of the specification\<close>

lemma list_update_Cons_numeral:
  "(x # xs)[numeral v := y] = x # xs[numeral v - 1 := y]"
  by (simp add: numeral_eq_Suc)

lemma replicate_22: "replicate 22 (0::byte) = [0,0,0,0,0,0,0,0,0,0,0,0,0,0,0,0,0,0,0,0,0,0]"
  by (simp add: numeral_eq_Suc)

lemma replicate_30: "replicate 30 (0::byte) = [0,0,0,0,0,0,0,0,0,0,0,0,0,0,0,0,0,0,0,0,0,0,0,0,0,0,0,0,0,0]"
  by (simp add: numeral_eq_Suc)

lemma replicate_46: "replicate 46 (0::byte) = [0,0,0,0,0,0,0,0,0,0,0,0,0,0,0,0,0,0,0,0,0,0,0,0,0,0,0,0,0,0,0,0,0,0,0,0,0,0,0,0,0,0,0,0,0,0]"
  by (simp add: numeral_eq_Suc)

lemma endOfCentralDirectory_closed:
  "endOfCentralDirectory n cs co =
     (if n \<le> 0xFFFF \<and> cs \<le> 0xFFFFFFFF \<and> co \<le> 0xFFFFFFFF then Inr (layout_eocd n cs co)
      else Inl ERR_OUT_OF_RANGE)"
  by (simp add: endOfCentralDirectory_def Buffer_alloc_def replicate_22 writeUInt16LE_def
      writeUInt32LE_def list_update_Cons_numeral layout_eocd_def uint16LE_def uint32LE_def)

lemma localHeader_closed:
  "localHeader nb uc crc fl dl =
     (if crc \<le> 0xFFFFFFFF \<and> fl \<le> 0xFFFFFFFF \<and> dl \<le> 0xFFFFFFFF \<and> length nb \<le> 0xFFFF
      then Inr (layout_localHeader (if uc then 8 else 0) crc fl dl nb)
      else Inl ERR_OUT_OF_RANGE)"
  by (simp add: localHeader_def Buffer_alloc_def replicate_add replicate_30 writeUInt16LE_def
      writeUInt32LE_def list_update_Cons_numeral layout_localHeader_def uint16LE_def uint32LE_def
      Buffer_copy_def)

lemma centralHeader_closed:
  "centralHeader nb uc crc fl dl off =
     (if crc \<le> 0xFFFFFFFF \<and> fl \<le> 0xFFFFFFFF \<and> dl \<le> 0xFFFFFFFF \<and> length nb \<le> 0xFFFF
         \<and> off \<le> 0xFFFFFFFF
      then Inr (layout_centralHeader (if uc then 8 else 0) crc fl dl nb off)
      else Inl ERR_OUT_OF_RANGE)"
  by (simp add: centralHeader_def Buffer_alloc_def replicate_add replicate_46 writeUInt16LE_def
      writeUInt32LE_def list_update_Cons_numeral layout_centralHeader_def uint16LE_def uint32LE_def
      Buffer_copy_def)

lemma decode16:
  "v \<le> 0xFFFF \<Longrightarrow> unat (of_nat v :: byte) + unat (of_nat (v div 2 ^ 8) :: byte) * 2 ^ 8 = v"
proof -
  assume "v \<le> 0xFFFF"
  then have "v div 256 < 256" by simp
  then have "v div 256 mod 256 = v div 256" by simp
  then show ?thesis by (simp add: unat_of_nat)
qed

lemma decode32:
  "v \<le> 0xFFFFFFFF \<Longrightarrow>
   unat (of_nat v :: byte) + unat (of_nat (v div 2 ^ 8) :: byte) * 2 ^ 8
   + unat (of_nat (v div 2 ^ 16) :: byte) * 2 ^ 16 + unat (of_nat (v div 2 ^ 24) :: byte) * 2 ^ 24 = v"
proof -
  assume v: "v \<le> 0xFFFFFFFF"
  define a where "a = v div 256"
  define b where "b = a div 256"
  define c where "c = b div 256"
  have b: "v div 65536 = b" and c: "v div 16777216 = c"
    by (simp_all add: a_def b_def c_def div_mult2_eq)
  from v have "c < 256" unfolding c [symmetric] by simp
  then have c256: "c mod 256 = c" by simp
  have "v = a * 256 + v mod 256" by (simp add: a_def)
  moreover have "a = b * 256 + a mod 256" by (simp add: b_def)
  moreover have "b = c * 256 + b mod 256" by (simp add: c_def)
  ultimately have "v mod 256 + a mod 256 * 256 + b mod 256 * 65536 + c * 16777216 = v"
    by linarith
  then show ?thesis
    by (simp add: unat_of_nat b c c256 a_def [symmetric])
qed

section \<open>The loop and the archive in closed form\<close>

lemma length_uint16LE [simp]: "length (uint16LE v) = 2" by (simp add: uint16LE_def)
lemma length_uint32LE [simp]: "length (uint32LE v) = 4" by (simp add: uint32LE_def)

lemma length_layout_localHeader [simp]:
  "length (layout_localHeader m crc cs us nb) = 30 + length nb"
  by (simp add: layout_localHeader_def)

lemma length_layout_centralHeader [simp]:
  "length (layout_centralHeader m crc cs us nb off) = 46 + length nb"
  by (simp add: layout_centralHeader_def)

lemma length_layout_eocd [simp]: "length (layout_eocd n cs co) = 22"
  by (simp add: layout_eocd_def)

lemma length_layout_local [simp]: "length (layout_local d f) = 30 + length (nameBytes f)"
  by (simp add: layout_local_def)

lemma length_layout_central [simp]: "length (layout_central d f off) = centralSize f"
  by (simp add: layout_central_def centralSize_def)

lemma crc32_range: "unat (crc32 b) \<le> 0xFFFFFFFF"
proof -
  have "unat (crc32 b) < 2 ^ 32"
    using unsigned_less [of "crc32 b"] by simp
  then show ?thesis by simp
qed

lemma zipEntry_closed:
  "zipEntry d off f =
     (if compress f \<and> isl (d (data f)) then Inl (projl (d (data f)))
      else if entry_ok d off f
      then Inr ((layout_local d f, storedData d f, off), layout_central d f off)
      else Inl ERR_OUT_OF_RANGE)"
proof (cases "compress f")
  case False
  then show ?thesis
    using crc32_range [of "data f"]
    by (simp add: zipEntry_def localHeader_closed centralHeader_closed entry_ok_def
        layout_local_def layout_central_def storedData_def usesDeflate_def methodOf_def
        nameBytes_def Let_def)
next
  case True
  show ?thesis
  proof (cases "d (data f)")
    case (Inl e)
    with True show ?thesis by (simp add: zipEntry_def)
  next
    case (Inr c)
    with True show ?thesis
      using crc32_range [of "data f"]
      by (simp add: zipEntry_def localHeader_closed centralHeader_closed entry_ok_def
          layout_local_def layout_central_def storedData_def usesDeflate_def methodOf_def
          nameBytes_def Let_def)
  qed
qed

lemma zipLoop_Inr_iff:
  "zipLoop d fs lhs chs off = Inr r \<longleftrightarrow>
     entries_ok d off fs \<and>
     r = (lhs @ layout_locals d off fs, chs @ layout_centrals d off fs,
          off + sum_list (map (localSize d) fs))"
proof (induction fs arbitrary: lhs chs off)
  case Nil
  show ?case by auto
next
  case (Cons f fs)
  show ?case
  proof (cases "entry_ok d off f")
    case True
    then have ok: "\<not> (compress f \<and> isl (d (data f)))" by (simp add: entry_ok_def)
    show ?thesis
      using True ok by (auto simp: zipEntry_closed Cons.IH localSize_def add.assoc)
  next
    case False
    then show ?thesis by (simp add: zipEntry_closed)
  qed
qed

lemma zipLoop_Inl:
  "zipLoop d fs lhs chs off = Inl e \<Longrightarrow>
   e = ERR_OUT_OF_RANGE \<or> (\<exists>f \<in> set fs. compress f \<and> d (data f) = Inl e)"
proof (induction fs arbitrary: lhs chs off)
  case Nil
  then show ?case by simp
next
  case (Cons f fs)
  show ?case
  proof (cases "zipEntry d off f")
    case (Inl e')
    with Cons.prems have e: "e' = e" by simp
    from Inl show ?thesis
      unfolding e zipEntry_closed
      by (cases "d (data f)") (auto split: if_splits)
  next
    case (Inr r)
    with Cons.prems Cons.IH show ?thesis
      by (auto split: prod.splits)
  qed
qed

lemma foldl_length_sum:
  "foldl (\<lambda>centralSize ch. centralSize + length ch) a chs = a + sum_list (map length chs)"
  by (induction chs arbitrary: a) simp_all

lemma map_length_layout_centrals:
  "map length (layout_centrals d off fs) = map centralSize fs"
  by (induction fs arbitrary: off) simp_all

lemma locals_concat:
  "concat (concat (map (\<lambda>(header, finalData, off). [header, finalData]) (layout_locals d off fs)))
   = concat (map (\<lambda>f. layout_local d f @ storedData d f) fs)"
  by (induction fs arbitrary: off) simp_all

lemma createZipBuffer_Inr_iff:
  "createZipBuffer d files = Inr out \<longleftrightarrow> archive_ok d files \<and> out = layout_archive d files"
proof (cases "zipLoop d files [] [] 0")
  case (Inl e)
  then have "\<not> entries_ok d 0 files"
    using zipLoop_Inr_iff [of d files "[]" "[]" 0] by auto
  with Inl show ?thesis by (simp add: createZipBuffer_def archive_ok_def)
next
  case (Inr r)
  then have ok: "entries_ok d 0 files"
    and r: "r = (layout_locals d 0 files, layout_centrals d 0 files, centralOffset d files)"
    by (simp_all add: zipLoop_Inr_iff centralOffset_def)
  show ?thesis
    using ok
    by (auto simp: createZipBuffer_def Inr r foldl_length_sum map_length_layout_centrals
        endOfCentralDirectory_closed archive_ok_def layout_archive_def Buffer_concat_def
        locals_concat Let_def)
qed

lemma createZipBuffer_Inl:
  "createZipBuffer d files = Inl e \<Longrightarrow>
   e = ERR_OUT_OF_RANGE \<or> (\<exists>f \<in> set files. compress f \<and> d (data f) = Inl e)"
proof (cases "zipLoop d files [] [] 0")
  case (Inl e')
  assume "createZipBuffer d files = Inl e"
  with Inl have "e' = e" by (simp add: createZipBuffer_def)
  with Inl zipLoop_Inl show ?thesis by blast
next
  case (Inr r)
  assume "createZipBuffer d files = Inl e"
  with Inr show ?thesis
    by (auto simp: createZipBuffer_def endOfCentralDirectory_closed Let_def
        split: prod.splits if_splits)
qed

section \<open>Reading the fields of the layout\<close>

lemma readUInt16LE_skip:
  "length pre = p \<Longrightarrow> readUInt16LE (pre @ r) (p + k) = readUInt16LE r k"
  by (auto simp: readUInt16LE_def nth_append)

lemma readUInt32LE_skip:
  "length pre = p \<Longrightarrow> readUInt32LE (pre @ r) (p + k) = readUInt32LE r k"
  by (auto simp: readUInt32LE_def nth_append)

lemma subarray_skip:
  "length pre = p \<Longrightarrow> subarray (pre @ r) (p + k) n = subarray r k n"
  by (simp add: subarray_def)

lemma subarray_exact: "length r = n \<Longrightarrow> subarray (r @ post) 0 n = r"
  by (simp add: subarray_def)

lemmas layout_bytes = layout_localHeader_def layout_centralHeader_def layout_eocd_def
  uint16LE_def uint32LE_def

lemma local_signature:
  "readUInt32LE (layout_localHeader m crc cs us nb @ rest) 0 = Some 0x04034b50"
  by (simp add: readUInt32LE_def layout_bytes)

lemma local_method:
  "m \<le> 0xFFFF \<Longrightarrow> readUInt16LE (layout_localHeader m crc cs us nb @ rest) 8 = Some m"
  using decode16 [of m] by (simp add: readUInt16LE_def layout_bytes)

lemma local_crc:
  "crc \<le> 0xFFFFFFFF \<Longrightarrow> readUInt32LE (layout_localHeader m crc cs us nb @ rest) 14 = Some crc"
  using decode32 [of crc] by (simp add: readUInt32LE_def layout_bytes)

lemma local_compressedSize:
  "cs \<le> 0xFFFFFFFF \<Longrightarrow> readUInt32LE (layout_localHeader m crc cs us nb @ rest) 18 = Some cs"
  using decode32 [of cs] by (simp add: readUInt32LE_def layout_bytes)

lemma local_uncompressedSize:
  "us \<le> 0xFFFFFFFF \<Longrightarrow> readUInt32LE (layout_localHeader m crc cs us nb @ rest) 22 = Some us"
  using decode32 [of us] by (simp add: readUInt32LE_def layout_bytes)

lemma local_nameLength:
  "length nb \<le> 0xFFFF \<Longrightarrow>
   readUInt16LE (layout_localHeader m crc cs us nb @ rest) 26 = Some (length nb)"
  using decode16 [of "length nb"] by (simp add: readUInt16LE_def layout_bytes)

lemma local_name:
  "subarray (layout_localHeader m crc cs us nb @ rest) 30 (length nb) = nb"
  by (simp add: subarray_def layout_bytes)

lemma central_signature:
  "readUInt32LE (layout_centralHeader m crc cs us nb off @ rest) 0 = Some 0x02014b50"
  by (simp add: readUInt32LE_def layout_bytes)

lemma central_method:
  "m \<le> 0xFFFF \<Longrightarrow> readUInt16LE (layout_centralHeader m crc cs us nb off @ rest) 10 = Some m"
  using decode16 [of m] by (simp add: readUInt16LE_def layout_bytes)

lemma central_crc:
  "crc \<le> 0xFFFFFFFF \<Longrightarrow>
   readUInt32LE (layout_centralHeader m crc cs us nb off @ rest) 16 = Some crc"
  using decode32 [of crc] by (simp add: readUInt32LE_def layout_bytes)

lemma central_compressedSize:
  "cs \<le> 0xFFFFFFFF \<Longrightarrow>
   readUInt32LE (layout_centralHeader m crc cs us nb off @ rest) 20 = Some cs"
  using decode32 [of cs] by (simp add: readUInt32LE_def layout_bytes)

lemma central_uncompressedSize:
  "us \<le> 0xFFFFFFFF \<Longrightarrow>
   readUInt32LE (layout_centralHeader m crc cs us nb off @ rest) 24 = Some us"
  using decode32 [of us] by (simp add: readUInt32LE_def layout_bytes)

lemma central_nameLength:
  "length nb \<le> 0xFFFF \<Longrightarrow>
   readUInt16LE (layout_centralHeader m crc cs us nb off @ rest) 28 = Some (length nb)"
  using decode16 [of "length nb"] by (simp add: readUInt16LE_def layout_bytes)

lemma central_localOffset:
  "off \<le> 0xFFFFFFFF \<Longrightarrow>
   readUInt32LE (layout_centralHeader m crc cs us nb off @ rest) 42 = Some off"
  using decode32 [of off] by (simp add: readUInt32LE_def layout_bytes)

lemma central_name:
  "subarray (layout_centralHeader m crc cs us nb off @ rest) 46 (length nb) = nb"
  by (simp add: subarray_def layout_bytes)

lemma eocd_fields:
  assumes "n \<le> 0xFFFF" "cs \<le> 0xFFFFFFFF" "co \<le> 0xFFFFFFFF"
  shows "readUInt32LE (layout_eocd n cs co) 0 = Some 0x06054b50"
    and "readUInt16LE (layout_eocd n cs co) 4 = Some 0"
    and "readUInt16LE (layout_eocd n cs co) 6 = Some 0"
    and "readUInt16LE (layout_eocd n cs co) 8 = Some n"
    and "readUInt16LE (layout_eocd n cs co) 10 = Some n"
    and "readUInt32LE (layout_eocd n cs co) 12 = Some cs"
    and "readUInt32LE (layout_eocd n cs co) 16 = Some co"
    and "readUInt16LE (layout_eocd n cs co) 20 = Some 0"
  using assms decode16 [of n] decode32 [of cs] decode32 [of co]
  by (simp_all add: readUInt16LE_def readUInt32LE_def layout_bytes)

section \<open>Where each entry lies in the archive\<close>

lemma localOffset_0 [simp]: "localOffset d fs 0 = 0"
  by (simp add: localOffset_def)

lemma localOffset_Cons_Suc [simp]:
  "localOffset d (f # fs) (Suc i) = localSize d f + localOffset d fs i"
  by (simp add: localOffset_def)

lemma localOffset_Suc:
  "i < length fs \<Longrightarrow> localOffset d fs (Suc i) = localOffset d fs i + localSize d (fs ! i)"
  by (simp add: localOffset_def take_Suc_conv_app_nth)

lemma localOffset_length: "localOffset d fs (length fs) = centralOffset d fs"
  by (simp add: localOffset_def centralOffset_def)

lemma length_layout_centrals [simp]: "length (layout_centrals d off fs) = length fs"
  by (induction fs arbitrary: off) simp_all

lemma nth_layout_centrals:
  "i < length fs \<Longrightarrow>
   layout_centrals d off fs ! i = layout_central d (fs ! i) (off + localOffset d fs i)"
proof (induction fs arbitrary: off i)
  case Nil
  then show ?case by simp
next
  case (Cons f fs)
  show ?case
  proof (cases i)
    case 0
    then show ?thesis by simp
  next
    case (Suc j)
    with Cons.prems have "j < length fs" by simp
    then show ?thesis by (simp add: Suc Cons.IH add.assoc)
  qed
qed

lemma layout_centrals_map:
  "layout_centrals d 0 fs =
   map (\<lambda>i. layout_central d (fs ! i) (localOffset d fs i)) [0..<length fs]"
  by (rule nth_equalityI) (simp_all add: nth_layout_centrals)

lemma entries_ok_nth:
  "entries_ok d off fs \<Longrightarrow> i < length fs \<Longrightarrow> entry_ok d (off + localOffset d fs i) (fs ! i)"
proof (induction fs arbitrary: off i)
  case Nil
  then show ?case by simp
next
  case (Cons f fs)
  show ?case
  proof (cases i)
    case 0
    with Cons.prems show ?thesis by simp
  next
    case (Suc j)
    with Cons.prems have "entries_ok d (off + localSize d f) fs" and "j < length fs" by simp_all
    then have "entry_ok d (off + localSize d f + localOffset d fs j) (fs ! j)" by (rule Cons.IH)
    then show ?thesis by (simp add: Suc add.assoc)
  qed
qed

lemma concat_split_nth:
  "i < length xss \<Longrightarrow> concat xss = concat (take i xss) @ xss ! i @ concat (drop (Suc i) xss)"
proof -
  assume "i < length xss"
  then have "xss = take i xss @ xss ! i # drop (Suc i) xss" by (rule id_take_nth_drop)
  then have "concat xss = concat (take i xss @ xss ! i # drop (Suc i) xss)" by simp
  then show ?thesis by simp
qed

lemma length_locals_take:
  "length (concat (take i (map (\<lambda>f. layout_local d f @ storedData d f) fs))) = localOffset d fs i"
proof -
  have "map length (map (\<lambda>f. layout_local d f @ storedData d f) (take i fs))
        = map (localSize d) (take i fs)"
    by (simp add: localSize_def)
  then show ?thesis
    by (simp add: length_concat take_map localOffset_def del: map_map)
qed

lemma length_locals:
  "length (concat (map (\<lambda>f. layout_local d f @ storedData d f) fs)) = centralOffset d fs"
  using length_locals_take [of "length fs" d fs] by (simp add: localOffset_length)

lemma length_centrals_take:
  "length (concat (take i (layout_centrals d off fs))) = sum_list (map centralSize (take i fs))"
proof -
  have "map length (take i (layout_centrals d off fs)) = map centralSize (take i fs)"
    by (simp add: take_map [symmetric] map_length_layout_centrals)
  then show ?thesis by (simp add: length_concat)
qed

lemma length_centrals:
  "length (concat (layout_centrals d off fs)) = sum_list (map centralSize fs)"
  using length_centrals_take [of "length fs" d off fs] by simp

lemma archive_local_view:
  assumes "i < length files"
  shows "\<exists>pre post. layout_archive d files
            = pre @ layout_local d (files ! i) @ storedData d (files ! i) @ post
          \<and> length pre = localOffset d files i"
proof -
  let ?L = "map (\<lambda>f. layout_local d f @ storedData d f) files"
  from assms have "concat ?L = concat (take i ?L) @ ?L ! i @ concat (drop (Suc i) ?L)"
    by (intro concat_split_nth) simp
  with assms have "layout_archive d files
      = concat (take i ?L) @ layout_local d (files ! i) @ storedData d (files ! i)
        @ (concat (drop (Suc i) ?L) @ concat (layout_centrals d 0 files)
           @ layout_eocd (length files) (sum_list (map centralSize files)) (centralOffset d files))"
    by (simp add: layout_archive_def)
  then show ?thesis using length_locals_take [of i d files] by blast
qed

lemma archive_central_view:
  assumes "i < length files"
  shows "\<exists>pre post. layout_archive d files
            = pre @ layout_central d (files ! i) (localOffset d files i) @ post
          \<and> length pre = centralPos d files i"
proof -
  let ?L = "concat (map (\<lambda>f. layout_local d f @ storedData d f) files)"
  let ?C = "layout_centrals d 0 files"
  from assms have "concat ?C = concat (take i ?C) @ ?C ! i @ concat (drop (Suc i) ?C)"
    by (intro concat_split_nth) simp
  with assms have "layout_archive d files
      = (?L @ concat (take i ?C)) @ layout_central d (files ! i) (localOffset d files i)
        @ (concat (drop (Suc i) ?C)
           @ layout_eocd (length files) (sum_list (map centralSize files)) (centralOffset d files))"
    by (simp add: layout_archive_def nth_layout_centrals)
  moreover have "length (?L @ concat (take i ?C)) = centralPos d files i"
    by (simp add: length_locals length_centrals_take centralPos_def)
  ultimately show ?thesis by blast
qed

lemma archive_eocd_view:
  "\<exists>pre. layout_archive d files
            = pre @ layout_eocd (length files) (sum_list (map centralSize files)) (centralOffset d files)
     \<and> length pre = centralOffset d files + sum_list (map centralSize files)"
proof -
  let ?L = "concat (map (\<lambda>f. layout_local d f @ storedData d f) files)"
  let ?C = "layout_centrals d 0 files"
  have "layout_archive d files = (?L @ concat ?C)
      @ layout_eocd (length files) (sum_list (map centralSize files)) (centralOffset d files)"
    by (simp add: layout_archive_def)
  moreover have "length (?L @ concat ?C) = centralOffset d files + sum_list (map centralSize files)"
    by (simp add: length_locals length_centrals)
  ultimately show ?thesis by blast
qed

lemma archive_entry_ok:
  "archive_ok d files \<Longrightarrow> i < length files \<Longrightarrow> entry_ok d (localOffset d files i) (files ! i)"
  using entries_ok_nth [of d 0 files i] by (simp add: archive_ok_def)

section \<open>The fields of each entry in the archive\<close>

lemma methodOf_range: "methodOf d f \<le> 0xFFFF"
  by (simp add: methodOf_def)

lemma local_entry_fields:
  assumes "createZipBuffer d files = Inr out" and "i < length files"
  shows "readUInt32LE out (localOffset d files i + 0) = Some 0x04034b50"
    and "readUInt16LE out (localOffset d files i + 8) = Some (methodOf d (files ! i))"
    and "readUInt32LE out (localOffset d files i + 14) = Some (unat (crc32 (data (files ! i))))"
    and "readUInt32LE out (localOffset d files i + 18) = Some (length (storedData d (files ! i)))"
    and "readUInt32LE out (localOffset d files i + 22) = Some (length (data (files ! i)))"
    and "readUInt16LE out (localOffset d files i + 26) = Some (length (nameBytes (files ! i)))"
    and "subarray out (localOffset d files i + 30) (length (nameBytes (files ! i)))
           = nameBytes (files ! i)"
    and "subarray out (localOffset d files i + (30 + length (nameBytes (files ! i))))
           (length (storedData d (files ! i))) = storedData d (files ! i)"
proof -
  from assms(1) have ok: "archive_ok d files" and out: "out = layout_archive d files"
    by (simp_all add: createZipBuffer_Inr_iff)
  from ok assms(2) have e: "entry_ok d (localOffset d files i) (files ! i)"
    by (rule archive_entry_ok)
  from archive_local_view [OF assms(2), of d] obtain pre post
    where v: "out = pre @ layout_local d (files ! i) @ storedData d (files ! i) @ post"
      and l: "length pre = localOffset d files i"
    unfolding out by blast
  note skip = readUInt32LE_skip [OF l] readUInt16LE_skip [OF l] subarray_skip [OF l]
  show "readUInt32LE out (localOffset d files i + 0) = Some 0x04034b50"
    unfolding v skip layout_local_def by (rule local_signature)
  show "readUInt16LE out (localOffset d files i + 8) = Some (methodOf d (files ! i))"
    unfolding v skip layout_local_def by (rule local_method) (rule methodOf_range)
  show "readUInt32LE out (localOffset d files i + 14) = Some (unat (crc32 (data (files ! i))))"
    unfolding v skip layout_local_def by (rule local_crc) (rule crc32_range)
  show "readUInt32LE out (localOffset d files i + 18) = Some (length (storedData d (files ! i)))"
    unfolding v skip layout_local_def using e by (intro local_compressedSize) (simp add: entry_ok_def)
  show "readUInt32LE out (localOffset d files i + 22) = Some (length (data (files ! i)))"
    unfolding v skip layout_local_def using e by (intro local_uncompressedSize) (simp add: entry_ok_def)
  show "readUInt16LE out (localOffset d files i + 26) = Some (length (nameBytes (files ! i)))"
    unfolding v skip layout_local_def using e by (intro local_nameLength) (simp add: entry_ok_def)
  show "subarray out (localOffset d files i + 30) (length (nameBytes (files ! i)))
           = nameBytes (files ! i)"
    unfolding v skip layout_local_def by (rule local_name)
  have h: "length (layout_local d (files ! i)) = 30 + length (nameBytes (files ! i))"
    by simp
  have "subarray (layout_local d (files ! i) @ storedData d (files ! i) @ post)
          (30 + length (nameBytes (files ! i)) + 0) (length (storedData d (files ! i)))
        = storedData d (files ! i)"
    unfolding subarray_skip [OF h] by (rule subarray_exact) simp
  then show "subarray out (localOffset d files i + (30 + length (nameBytes (files ! i))))
           (length (storedData d (files ! i))) = storedData d (files ! i)"
    unfolding v skip by simp
qed

lemma central_entry_fields:
  assumes "createZipBuffer d files = Inr out" and "i < length files"
  shows "readUInt32LE out (centralPos d files i + 0) = Some 0x02014b50"
    and "readUInt16LE out (centralPos d files i + 10) = Some (methodOf d (files ! i))"
    and "readUInt32LE out (centralPos d files i + 16) = Some (unat (crc32 (data (files ! i))))"
    and "readUInt32LE out (centralPos d files i + 20) = Some (length (storedData d (files ! i)))"
    and "readUInt32LE out (centralPos d files i + 24) = Some (length (data (files ! i)))"
    and "readUInt16LE out (centralPos d files i + 28) = Some (length (nameBytes (files ! i)))"
    and "readUInt32LE out (centralPos d files i + 42) = Some (localOffset d files i)"
    and "subarray out (centralPos d files i + 46) (length (nameBytes (files ! i)))
           = nameBytes (files ! i)"
proof -
  from assms(1) have ok: "archive_ok d files" and out: "out = layout_archive d files"
    by (simp_all add: createZipBuffer_Inr_iff)
  from ok assms(2) have e: "entry_ok d (localOffset d files i) (files ! i)"
    by (rule archive_entry_ok)
  from archive_central_view [OF assms(2), of d] obtain pre post
    where v: "out = pre @ layout_central d (files ! i) (localOffset d files i) @ post"
      and l: "length pre = centralPos d files i"
    unfolding out by blast
  note skip = readUInt32LE_skip [OF l] readUInt16LE_skip [OF l] subarray_skip [OF l]
  show "readUInt32LE out (centralPos d files i + 0) = Some 0x02014b50"
    unfolding v skip layout_central_def by (rule central_signature)
  show "readUInt16LE out (centralPos d files i + 10) = Some (methodOf d (files ! i))"
    unfolding v skip layout_central_def by (rule central_method) (rule methodOf_range)
  show "readUInt32LE out (centralPos d files i + 16) = Some (unat (crc32 (data (files ! i))))"
    unfolding v skip layout_central_def by (rule central_crc) (rule crc32_range)
  show "readUInt32LE out (centralPos d files i + 20) = Some (length (storedData d (files ! i)))"
    unfolding v skip layout_central_def using e by (intro central_compressedSize) (simp add: entry_ok_def)
  show "readUInt32LE out (centralPos d files i + 24) = Some (length (data (files ! i)))"
    unfolding v skip layout_central_def using e by (intro central_uncompressedSize) (simp add: entry_ok_def)
  show "readUInt16LE out (centralPos d files i + 28) = Some (length (nameBytes (files ! i)))"
    unfolding v skip layout_central_def using e by (intro central_nameLength) (simp add: entry_ok_def)
  show "readUInt32LE out (centralPos d files i + 42) = Some (localOffset d files i)"
    unfolding v skip layout_central_def using e by (intro central_localOffset) (simp add: entry_ok_def)
  show "subarray out (centralPos d files i + 46) (length (nameBytes (files ! i)))
           = nameBytes (files ! i)"
    unfolding v skip layout_central_def by (rule central_name)
qed

lemma stored_decision:
  assumes "entry_ok d off f"
  shows "\<exists>c. (if compress f then d (data f) else Inr (data f)) = Inr c
           \<and> usesDeflate d f = (compress f \<and> length c < length (data f))
           \<and> storedData d f = (if compress f \<and> length c < length (data f) then c else data f)
           \<and> methodOf d f = (if compress f \<and> length c < length (data f) then 8 else 0)"
proof (cases "compress f")
  case False
  then show ?thesis by (simp add: storedData_def methodOf_def usesDeflate_def)
next
  case True
  with assms obtain c where "d (data f) = Inr c"
    by (cases "d (data f)") (simp_all add: entry_ok_def)
  with True show ?thesis by (simp add: storedData_def methodOf_def usesDeflate_def)
qed

lemma entries_ok_names:
  "entries_ok d off fs \<Longrightarrow> f \<in> set fs \<Longrightarrow> length (nameBytes f) \<le> 0xFFFF"
  by (induction fs arbitrary: off) (auto simp: entry_ok_def)

lemma entries_ok_deflate:
  "entries_ok d off fs \<Longrightarrow> f \<in> set fs \<Longrightarrow> compress f \<Longrightarrow> \<not> isl (d (data f))"
  by (induction fs arbitrary: off) (auto simp: entry_ok_def)

section \<open>The sample inputs evaluated\<close>

lemma utf8_mimetype: "Buffer_from_utf8 (from_ascii ''mimetype'') = ascii_bytes ''mimetype''"
  by (simp add: from_ascii_def ascii_bytes_def utf8Unit_def isHighSurrogate_def)

lemma utf8_a: "Buffer_from_utf8 (from_ascii ''a'') = ascii_bytes ''a''"
  by (simp add: from_ascii_def ascii_bytes_def utf8Unit_def isHighSurrogate_def)

lemma utf8_b: "Buffer_from_utf8 (from_ascii ''b'') = ascii_bytes ''b''"
  by (simp add: from_ascii_def ascii_bytes_def utf8Unit_def isHighSurrogate_def)

lemma sample_entries:
  "name entry_mimetype = from_ascii ''mimetype''"
  "data entry_mimetype = ascii_bytes ''application/epub+zip''"
  "compress entry_mimetype = False"
  "name entry_a = from_ascii ''a''" "data entry_a = ascii_bytes ''aaaaaaaa''" "compress entry_a = True"
  "name entry_b = from_ascii ''b''" "data entry_b = ascii_bytes ''ab''" "compress entry_b = True"
  by (simp_all add: entry_mimetype_def entry_a_def entry_b_def)

lemma sample_nameBytes:
  "nameBytes entry_mimetype = ascii_bytes ''mimetype''"
  "nameBytes entry_a = ascii_bytes ''a''"
  "nameBytes entry_b = ascii_bytes ''b''"
  by (simp_all add: nameBytes_def sample_entries utf8_mimetype utf8_a utf8_b)

lemma sample_deflated:
  "sample_deflate (ascii_bytes ''aaaaaaaa'') = Inr [3, 97]"
  "sample_deflate (ascii_bytes ''ab'') = Inr [3, 97, 98]"
  by (simp_all add: sample_deflate_def ascii_bytes_def)

lemma sample_lengths:
  "length (ascii_bytes ''mimetype'') = 8"
  "length (ascii_bytes ''application/epub+zip'') = 20"
  "length (ascii_bytes ''aaaaaaaa'') = 8"
  "length (ascii_bytes ''ab'') = 2"
  "length (ascii_bytes ''a'') = 1"
  "length (ascii_bytes ''b'') = 1"
  by (simp_all add: ascii_bytes_def)

lemma sample_storedData:
  "storedData sample_deflate entry_mimetype = ascii_bytes ''application/epub+zip''"
  "storedData sample_deflate entry_a = [3, 97]"
  "storedData sample_deflate entry_b = ascii_bytes ''ab''"
  by (simp_all add: storedData_def usesDeflate_def sample_entries sample_deflated sample_lengths)

lemma sample_localSize:
  "localSize sample_deflate entry_mimetype = 58"
  "localSize sample_deflate entry_a = 33"
  "localSize sample_deflate entry_b = 33"
  by (simp_all add: localSize_def sample_nameBytes sample_storedData sample_lengths)

lemma sample_centralSize:
  "centralSize entry_mimetype = 54" "centralSize entry_a = 47" "centralSize entry_b = 47"
  by (simp_all add: centralSize_def sample_nameBytes sample_lengths)

lemma sample_nth:
  "length sample_files = 3"
  "sample_files ! 0 = entry_mimetype" "sample_files ! 1 = entry_a" "sample_files ! 2 = entry_b"
  "sample_files ! Suc 0 = entry_a"
  by (simp_all add: sample_files_def)

lemma sample_positions:
  "localOffset sample_deflate sample_files 1 = 58"
  "localOffset sample_deflate sample_files 2 = 91"
  "centralOffset sample_deflate sample_files = 124"
  "centralPos sample_deflate sample_files 1 = 178"
  "centralPos sample_deflate sample_files 2 = 225"
  "localOffset sample_deflate sample_files (Suc 0) = 58"
  "centralPos sample_deflate sample_files (Suc 0) = 178"
  by (simp_all add: localOffset_def centralPos_def centralOffset_def sample_files_def
      sample_localSize sample_centralSize numeral_2_eq_2)

lemma sample_archive_ok: "archive_ok sample_deflate sample_files"
  by (simp add: archive_ok_def sample_files_def entry_ok_def sample_localSize sample_centralSize
      centralOffset_def sample_storedData sample_nameBytes sample_entries sample_lengths
      sample_deflate_def)

lemma sample_returns:
  "createZipBuffer sample_deflate sample_files = Inr (layout_archive sample_deflate sample_files)"
  by (simp add: createZipBuffer_Inr_iff sample_archive_ok)

section \<open>The claims\<close>

text \<open>
  C1. \<open>crc32\<close> is the table-driven IEEE CRC-32 of the specification: the table of
  \<open>getCrc32Table\<close> has 256 entries, entry \<open>i\<close> is \<open>i\<close> shifted right 8 times with
  \<open>0xEDB88320\<close> XORed in whenever the low bit was set, and for every byte sequence
  \<open>crc32\<close> equals the reference definition \<open>spec_crc32\<close>.
\<close>

theorem crc32_refines_spec:
  "getCrc32Table = map spec_table [0..<256] \<and> crc32 buffer = spec_crc32 buffer"
  by (simp add: crc32_def spec_crc32_def crc32_loop_foldl getCrc32Table_spec [symmetric])

text \<open>
  C9. \<open>crc32\<close> has no error condition: it is a total function of the byte sequence,
  no step of its loop reads outside the 256 entries of the table, and the CRC of the
  empty byte sequence is \<open>0x00000000\<close>.
\<close>

theorem crc32_total_and_empty:
  "crc32 [] = 0x00000000
   \<and> unat (((crc :: uint32) XOR ucast (b :: byte)) AND 0xFF) < length getCrc32Table"
proof -
  have "length getCrc32Table = 256"
    by (simp only: getCrc32Table_spec length_map length_upt diff_zero)
  then show ?thesis
    using low_byte_index [of "crc XOR ucast b"] by (simp add: crc32_def)
qed

text \<open>
  C8. For the empty entry list \<open>createZipBuffer\<close> returns exactly 22 bytes: one
  end-of-central-directory record with signature \<open>0x06054b50\<close>, both entry counts 0,
  central-directory size 0 and central-directory offset 0.
\<close>

theorem createZipBuffer_empty:
  "createZipBuffer d [] =
     Inr [0x50, 0x4B, 0x05, 0x06, 0, 0, 0, 0, 0, 0, 0, 0, 0, 0, 0, 0, 0, 0, 0, 0, 0, 0]"
  by (simp add: createZipBuffer_Inr_iff archive_ok_def layout_archive_def centralOffset_def
      layout_eocd_def uint16LE_def uint32LE_def)

text \<open>
  C4. For every entry of an archive that \<open>createZipBuffer\<close> returns, the 4 bytes at
  offset 14 of its local file header and at offset 16 of its central directory header
  hold \<open>crc32\<close> of the original, uncompressed payload, whether the entry is stored
  compressed or raw.
\<close>

theorem crc_of_uncompressed_payload:
  assumes "createZipBuffer d files = Inr out" and "i < length files"
  shows "readUInt32LE out (localOffset d files i) = Some 0x04034b50
       \<and> readUInt32LE out (localOffset d files i + 14) = Some (unat (crc32 (data (files ! i))))
       \<and> readUInt32LE out (centralPos d files i) = Some 0x02014b50
       \<and> readUInt32LE out (centralPos d files i + 16) = Some (unat (crc32 (data (files ! i))))"
  using local_entry_fields(1,3) [OF assms] central_entry_fields(1,3) [OF assms] by simp

text \<open>
  An instance: the second sample entry, which is stored compressed.
\<close>

theorem crc_of_uncompressed_payload_witness:
  "createZipBuffer sample_deflate sample_files = Inr (layout_archive sample_deflate sample_files)
   \<and> (1::nat) < length sample_files
   \<and> readUInt32LE (layout_archive sample_deflate sample_files) 58 = Some 0x04034b50
   \<and> readUInt32LE (layout_archive sample_deflate sample_files) (58 + 14)
       = Some (unat (crc32 (ascii_bytes ''aaaaaaaa'')))
   \<and> readUInt32LE (layout_archive sample_deflate sample_files) 178 = Some 0x02014b50
   \<and> readUInt32LE (layout_archive sample_deflate sample_files) (178 + 16)
       = Some (unat (crc32 (ascii_bytes ''aaaaaaaa'')))"
proof -
  have i: "(1::nat) < length sample_files" by (simp add: sample_nth)
  from crc_of_uncompressed_payload [OF sample_returns i] sample_returns i
  show ?thesis by (simp add: sample_nth sample_positions sample_entries)
qed

text \<open>
  C3. For every entry of an archive that \<open>createZipBuffer\<close> returns, with \<open>c\<close> the
  compressed candidate (the output of DEFLATE when \<open>compress\<close> is true): the bytes
  stored after the local header are \<open>c\<close> if and only if \<open>compress\<close> is true and
  \<open>c\<close> is strictly shorter than the payload, and the payload verbatim otherwise; the
  compression-method field of both headers is 8 exactly when \<open>c\<close> is stored and 0
  otherwise; the compressed-size field is the length of the stored bytes, at most the
  uncompressed-size field; and when \<open>c\<close> is not strictly shorter the method is 0 and
  the two size fields are equal.
\<close>

theorem compression_selection:
  assumes "createZipBuffer d files = Inr out" and "i < length files"
  shows "\<exists>c. (if compress (files ! i) then d (data (files ! i)) else Inr (data (files ! i))) = Inr c
     \<and> (let payload = data (files ! i);
             used = (compress (files ! i) \<and> length c < length payload);
             stored = (if used then c else payload);
             local = localOffset d files i;
             central = centralPos d files i
         in subarray out (local + (30 + length (Buffer_from_utf8 (name (files ! i))))) (length stored)
              = stored
          \<and> readUInt16LE out (local + 8) = Some (if used then 8 else 0)
          \<and> readUInt16LE out (central + 10) = Some (if used then 8 else 0)
          \<and> readUInt32LE out (local + 18) = Some (length stored)
          \<and> readUInt32LE out (central + 20) = Some (length stored)
          \<and> readUInt32LE out (local + 22) = Some (length payload)
          \<and> readUInt32LE out (central + 24) = Some (length payload)
          \<and> length stored \<le> length payload
          \<and> (\<not> length c < length payload \<longrightarrow>
               readUInt16LE out (local + 8) = Some 0
               \<and> readUInt32LE out (local + 18) = readUInt32LE out (local + 22)))"
proof -
  from assms(1) have "archive_ok d files" by (simp add: createZipBuffer_Inr_iff)
  then have "entry_ok d (localOffset d files i) (files ! i)"
    using assms(2) by (rule archive_entry_ok)
  then obtain c
    where c: "(if compress (files ! i) then d (data (files ! i)) else Inr (data (files ! i))) = Inr c"
      and s: "storedData d (files ! i)
                = (if compress (files ! i) \<and> length c < length (data (files ! i)) then c
                   else data (files ! i))"
      and m: "methodOf d (files ! i)
                = (if compress (files ! i) \<and> length c < length (data (files ! i)) then 8 else 0)"
    using stored_decision by blast
  note l = local_entry_fields [OF assms, unfolded s m nameBytes_def]
  note z = central_entry_fields [OF assms, unfolded s m nameBytes_def]
  show ?thesis
    using c l(2,4,5,8) z(2,4,5) by (intro exI [of _ c]) (simp add: Let_def)
qed

text \<open>
  An instance: the third sample entry does not shrink (stored raw, method 0, sizes
  equal), the second does (stored compressed, method 8).
\<close>

theorem compression_selection_witness:
  "createZipBuffer sample_deflate sample_files = Inr (layout_archive sample_deflate sample_files)
   \<and> (2::nat) < length sample_files
   \<and> sample_deflate (data (sample_files ! 2)) = Inr [3, 97, 98]
   \<and> \<not> length [3, 97, 98 :: byte] < length (data (sample_files ! 2))
   \<and> subarray (layout_archive sample_deflate sample_files) (91 + (30 + 1)) 2 = ascii_bytes ''ab''
   \<and> readUInt16LE (layout_archive sample_deflate sample_files) (91 + 8) = Some 0
   \<and> readUInt32LE (layout_archive sample_deflate sample_files) (91 + 18) = Some 2
   \<and> readUInt32LE (layout_archive sample_deflate sample_files) (91 + 22) = Some 2
   \<and> sample_deflate (data (sample_files ! 1)) = Inr [3, 97]
   \<and> subarray (layout_archive sample_deflate sample_files) (58 + (30 + 1)) 2 = [3, 97]
   \<and> readUInt16LE (layout_archive sample_deflate sample_files) (58 + 8) = Some 8
   \<and> readUInt32LE (layout_archive sample_deflate sample_files) (58 + 18) = Some 2
   \<and> readUInt32LE (layout_archive sample_deflate sample_files) (58 + 22) = Some 8"
proof -
  have i: "(2::nat) < length sample_files" and j: "(1::nat) < length sample_files"
    by (simp_all add: sample_nth)
  from compression_selection [OF sample_returns i] compression_selection [OF sample_returns j]
    sample_returns i
  show ?thesis
    by (simp add: sample_nth sample_positions sample_entries sample_deflated sample_lengths
        utf8_a utf8_b Let_def numeral_2_eq_2 [symmetric])
qed

text \<open>
  C5. For every entry \<open>i\<close> of an archive that \<open>createZipBuffer\<close> returns, the
  local-header-offset field of the \<open>i\<close>-th central directory header is the position
  at which the \<open>i\<close>-th local file header begins: 0 for the first entry, and for the
  next entry the previous position plus 30 plus the byte length of the name plus the
  length of the stored data.  The local header at that position has the same name, the
  same compressed size and the same uncompressed size as the central header.
\<close>

theorem offset_consistency:
  assumes "createZipBuffer d files = Inr out" and "i < length files"
  shows "(let f = files ! i;
              nameBuffer = Buffer_from_utf8 (name f);
              local = localOffset d files i;
              central = centralPos d files i
          in readUInt32LE out (central + 42) = Some local
           \<and> localOffset d files 0 = 0
           \<and> localOffset d files (Suc i) = local + (30 + length nameBuffer + length (storedData d f))
           \<and> readUInt32LE out local = Some 0x04034b50
           \<and> readUInt16LE out (local + 26) = Some (length nameBuffer)
           \<and> readUInt16LE out (central + 28) = Some (length nameBuffer)
           \<and> subarray out (local + 30) (length nameBuffer) = nameBuffer
           \<and> subarray out (central + 46) (length nameBuffer) = nameBuffer
           \<and> readUInt32LE out (local + 18) = Some (length (storedData d f))
           \<and> readUInt32LE out (central + 20) = Some (length (storedData d f))
           \<and> readUInt32LE out (local + 22) = Some (length (data f))
           \<and> readUInt32LE out (central + 24) = Some (length (data f)))"
  using local_entry_fields [OF assms, unfolded nameBytes_def]
    central_entry_fields [OF assms, unfolded nameBytes_def]
    localOffset_Suc [OF assms(2), of d]
  by (simp add: Let_def localSize_def nameBytes_def)

text \<open>
  An instance: the second sample entry.
\<close>

theorem offset_consistency_witness:
  "createZipBuffer sample_deflate sample_files = Inr (layout_archive sample_deflate sample_files)
   \<and> (1::nat) < length sample_files
   \<and> readUInt32LE (layout_archive sample_deflate sample_files) (178 + 42) = Some 58
   \<and> localOffset sample_deflate sample_files 2 = 58 + (30 + 1 + 2)
   \<and> readUInt32LE (layout_archive sample_deflate sample_files) 58 = Some 0x04034b50
   \<and> readUInt16LE (layout_archive sample_deflate sample_files) (58 + 26) = Some 1
   \<and> readUInt16LE (layout_archive sample_deflate sample_files) (178 + 28) = Some 1
   \<and> subarray (layout_archive sample_deflate sample_files) (58 + 30) 1 = ascii_bytes ''a''
   \<and> subarray (layout_archive sample_deflate sample_files) (178 + 46) 1 = ascii_bytes ''a''
   \<and> readUInt32LE (layout_archive sample_deflate sample_files) (58 + 18) = Some 2
   \<and> readUInt32LE (layout_archive sample_deflate sample_files) (178 + 20) = Some 2
   \<and> readUInt32LE (layout_archive sample_deflate sample_files) (58 + 22) = Some 8
   \<and> readUInt32LE (layout_archive sample_deflate sample_files) (178 + 24) = Some 8"
proof -
  have i: "(1::nat) < length sample_files" by (simp add: sample_nth)
  from offset_consistency [OF sample_returns i] sample_returns i
  show ?thesis
    by (simp add: sample_nth sample_positions sample_entries sample_storedData sample_lengths
        utf8_a Let_def numeral_2_eq_2 [symmetric])
qed

text \<open>
  C6. An archive that \<open>createZipBuffer\<close> returns is the concatenation, in input
  order, of each entry's local file header and stored bytes, then of all central
  directory headers in input order, then of one end-of-central-directory record of 22
  bytes: signature \<open>0x06054b50\<close>, disk number 0, disk with the central directory 0,
  both entry counts the number of entries, central-directory size the sum of the lengths
  of the central headers, central-directory offset the length of the section of local
  headers and data, comment length 0.
\<close>

theorem archive_layout:
  assumes "createZipBuffer d files = Inr out"
  shows "(let locals = map (\<lambda>f. layout_local d f @ storedData d f) files;
              centrals = map (\<lambda>i. layout_central d (files ! i) (localOffset d files i))
                           [0..<length files]
          in \<exists>eocd. out = concat locals @ concat centrals @ eocd
               \<and> length eocd = 22
               \<and> readUInt32LE eocd 0 = Some 0x06054b50
               \<and> readUInt16LE eocd 4 = Some 0
               \<and> readUInt16LE eocd 6 = Some 0
               \<and> readUInt16LE eocd 8 = Some (length files)
               \<and> readUInt16LE eocd 10 = Some (length files)
               \<and> readUInt32LE eocd 12 = Some (sum_list (map length centrals))
               \<and> readUInt32LE eocd 16 = Some (length (concat locals))
               \<and> readUInt16LE eocd 20 = Some 0)"
proof -
  let ?cs = "sum_list (map centralSize files)"
  let ?co = "centralOffset d files"
  from assms have ok: "archive_ok d files" and out: "out = layout_archive d files"
    by (simp_all add: createZipBuffer_Inr_iff)
  from ok have r: "length files \<le> 0xFFFF" "?cs \<le> 0xFFFFFFFF" "?co \<le> 0xFFFFFFFF"
    by (simp_all add: archive_ok_def)
  have cs: "sum_list (map length (map (\<lambda>i. layout_central d (files ! i) (localOffset d files i))
                [0..<length files])) = ?cs"
    unfolding layout_centrals_map [symmetric] map_length_layout_centrals ..
  show ?thesis
    unfolding Let_def cs length_locals
    using eocd_fields [OF r]
    by (intro exI [of _ "layout_eocd (length files) ?cs ?co"])
       (simp add: out layout_archive_def layout_centrals_map)
qed

text \<open>
  An instance: the three sample entries.
\<close>

theorem archive_layout_witness:
  "createZipBuffer sample_deflate sample_files = Inr (layout_archive sample_deflate sample_files)
   \<and> (\<exists>eocd. layout_archive sample_deflate sample_files
          = concat (map (\<lambda>f. layout_local sample_deflate f @ storedData sample_deflate f) sample_files)
            @ concat (map (\<lambda>i. layout_central sample_deflate (sample_files ! i)
                                 (localOffset sample_deflate sample_files i)) [0..<3])
            @ eocd
        \<and> length eocd = 22
        \<and> readUInt32LE eocd 0 = Some 0x06054b50
        \<and> readUInt16LE eocd 4 = Some 0
        \<and> readUInt16LE eocd 6 = Some 0
        \<and> readUInt16LE eocd 8 = Some 3
        \<and> readUInt16LE eocd 10 = Some 3
        \<and> readUInt32LE eocd 12 = Some 148
        \<and> readUInt32LE eocd 16 = Some 124
        \<and> readUInt16LE eocd 20 = Some 0)"
proof -
  have cs: "sum_list (map length (map (\<lambda>i. layout_central sample_deflate (sample_files ! i)
               (localOffset sample_deflate sample_files i)) [0..<length sample_files])) = 148"
    unfolding layout_centrals_map [symmetric] map_length_layout_centrals
    by (simp add: sample_files_def sample_centralSize)
  have co: "length (concat (map (\<lambda>f. layout_local sample_deflate f @ storedData sample_deflate f)
               sample_files)) = 124"
    by (simp add: length_locals sample_positions)
  from archive_layout [OF sample_returns] sample_returns
  show ?thesis
    unfolding Let_def cs co by (simp add: sample_nth)
qed

text \<open>
  C7. When the first entry is named \<open>mimetype\<close>, has \<open>compress = false\<close> and the
  payload \<open>application/epub+zip\<close>, an archive that \<open>createZipBuffer\<close> returns
  begins with that entry's local file header at offset 0 (signature \<open>0x04034b50\<close>,
  method 0, compressed size and uncompressed size 20, name length 8, the name), and the
  20 bytes after these 38 are the payload itself.
\<close>

theorem mimetype_first:
  assumes "createZipBuffer d (f # rest) = Inr out"
    and "name f = from_ascii ''mimetype''"
    and "\<not> compress f"
    and "data f = ascii_bytes ''application/epub+zip''"
  shows "readUInt32LE out 0 = Some 0x04034b50
       \<and> readUInt16LE out 8 = Some 0
       \<and> readUInt32LE out 18 = Some 20
       \<and> readUInt32LE out 22 = Some 20
       \<and> readUInt16LE out 26 = Some 8
       \<and> subarray out 30 8 = ascii_bytes ''mimetype''
       \<and> subarray out 38 20 = ascii_bytes ''application/epub+zip''"
proof -
  have i: "0 < length (f # rest)" by simp
  have n: "nameBytes f = ascii_bytes ''mimetype''"
    by (simp add: nameBytes_def assms(2) utf8_mimetype)
  have s: "storedData d f = ascii_bytes ''application/epub+zip''"
    by (simp add: storedData_def usesDeflate_def assms(3,4))
  have m: "methodOf d f = 0"
    by (simp add: methodOf_def usesDeflate_def assms(3))
  have l8: "length (ascii_bytes ''mimetype'') = 8" and l20: "length (ascii_bytes ''application/epub+zip'') = 20"
    by (simp_all add: ascii_bytes_def)
  note l = local_entry_fields [OF assms(1) i, simplified, unfolded n s m assms(4) l8 l20]
  from l show ?thesis by simp
qed

text \<open>
  An instance: the sample entries, of which \<open>mimetype\<close> is the first.
\<close>

theorem mimetype_first_witness:
  "createZipBuffer sample_deflate (entry_mimetype # [entry_a, entry_b])
     = Inr (layout_archive sample_deflate sample_files)
   \<and> name entry_mimetype = from_ascii ''mimetype''
   \<and> \<not> compress entry_mimetype
   \<and> data entry_mimetype = ascii_bytes ''application/epub+zip''
   \<and> readUInt32LE (layout_archive sample_deflate sample_files) 0 = Some 0x04034b50
   \<and> readUInt16LE (layout_archive sample_deflate sample_files) 8 = Some 0
   \<and> readUInt32LE (layout_archive sample_deflate sample_files) 18 = Some 20
   \<and> readUInt32LE (layout_archive sample_deflate sample_files) 22 = Some 20
   \<and> readUInt16LE (layout_archive sample_deflate sample_files) 26 = Some 8
   \<and> subarray (layout_archive sample_deflate sample_files) 30 8 = ascii_bytes ''mimetype''
   \<and> subarray (layout_archive sample_deflate sample_files) 38 20
       = ascii_bytes ''application/epub+zip''"
proof -
  have r: "createZipBuffer sample_deflate (entry_mimetype # [entry_a, entry_b])
             = Inr (layout_archive sample_deflate sample_files)"
    using sample_returns by (simp add: sample_files_def)
  have c: "\<not> compress entry_mimetype" by (simp add: sample_entries)
  from mimetype_first [OF r sample_entries(1) c sample_entries(2)] r c sample_entries(1,2)
  show ?thesis by simp
qed

text \<open>
  C10. With more than 65535 entries, or with an entry whose name is longer than
  65535 bytes in UTF-8, \<open>createZipBuffer\<close> raises and returns no buffer; unless
  DEFLATE itself threw, the error is the range check of Node's buffer writes.
\<close>

theorem field_overflow_raises:
  assumes "0xFFFF < length files \<or> (\<exists>f \<in> set files. 0xFFFF < length (Buffer_from_utf8 (name f)))"
  shows "isl (createZipBuffer d files)
       \<and> ((\<forall>f \<in> set files. compress f \<longrightarrow> \<not> isl (d (data f)))
            \<longrightarrow> createZipBuffer d files = Inl ERR_OUT_OF_RANGE)"
proof (cases "createZipBuffer d files")
  case (Inr out)
  then have ok: "archive_ok d files" by (simp add: createZipBuffer_Inr_iff)
  then have "length files \<le> 0xFFFF" and "entries_ok d 0 files" by (simp_all add: archive_ok_def)
  with assms entries_ok_names [of d 0 files] have False
    by (fastforce simp: nameBytes_def)
  then show ?thesis ..
next
  case (Inl e)
  from createZipBuffer_Inl [OF Inl] Inl show ?thesis by auto
qed

text \<open>
  An instance: 65536 entries.
\<close>

theorem field_overflow_raises_witness:
  "0xFFFF < length (replicate 65536 entry_a)
   \<and> isl (createZipBuffer sample_deflate (replicate 65536 entry_a))
   \<and> createZipBuffer sample_deflate (replicate 65536 entry_a) = Inl ERR_OUT_OF_RANGE"
proof -
  have h: "0xFFFF < length (replicate 65536 entry_a)
           \<or> (\<exists>f \<in> set (replicate 65536 entry_a). 0xFFFF < length (Buffer_from_utf8 (name f)))"
    by simp
  have "\<forall>f \<in> set (replicate 65536 entry_a). compress f \<longrightarrow> \<not> isl (sample_deflate (data f))"
    by (simp add: sample_deflate_def)
  with field_overflow_raises [OF h, of sample_deflate] show ?thesis by simp
qed

text \<open>
  C2 (as amended). \<open>createZipBuffer\<close> has no fallback for a failing DEFLATE: if
  \<open>deflateRawSync\<close> throws on the payload of an entry with \<open>compress = true\<close>,
  the exception leaves \<open>createZipBuffer\<close>, so the whole call raises and no archive
  is returned.
\<close>

theorem deflate_failure_propagates:
  assumes "f \<in> set files" and "compress f" and "d (data f) = Inl e"
  shows "isl (createZipBuffer d files)"
proof (cases "createZipBuffer d files")
  case (Inr out)
  then have "entries_ok d 0 files" by (simp add: createZipBuffer_Inr_iff archive_ok_def)
  with assms entries_ok_deflate [of d 0 files f] show ?thesis by simp
next
  case (Inl e')
  then show ?thesis by simp
qed

text \<open>
  An instance: the second entry asks for compression and DEFLATE throws.
\<close>

theorem deflate_failure_propagates_witness:
  "entry_a \<in> set [entry_mimetype, entry_a] \<and> compress entry_a
   \<and> failing_deflate (data entry_a) = Inl Zlib_error
   \<and> isl (createZipBuffer failing_deflate [entry_mimetype, entry_a])"
proof -
  have 1: "entry_a \<in> set [entry_mimetype, entry_a]" by simp
  have 2: "compress entry_a" by (simp add: sample_entries)
  have 3: "failing_deflate (data entry_a) = Inl Zlib_error" by (simp add: failing_deflate_def)
  from deflate_failure_propagates
         [of entry_a "[entry_mimetype, entry_a]" failing_deflate Zlib_error, OF 1 2 3] 1 2 3
  show ?thesis by simp
qed

text \<open>
  C2 as the specification states it (fall back to method 0 and still return a complete
  archive) fails on the code: here DEFLATE throws on an entry with \<open>compress = true\<close>
  and \<open>createZipBuffer\<close> raises that error instead of returning an archive.
\<close>

theorem deflate_failure_no_fallback:
  "compress entry_a \<and> failing_deflate (data entry_a) = Inl Zlib_error
   \<and> createZipBuffer failing_deflate [entry_mimetype, entry_a] = Inl Zlib_error"
proof -
  have "entry_ok failing_deflate 0 entry_mimetype"
    by (simp add: entry_ok_def sample_entries sample_nameBytes sample_lengths storedData_def
        usesDeflate_def)
  then show ?thesis
    by (simp add: createZipBuffer_def zipEntry_closed sample_entries failing_deflate_def)
qed

end
